theory Spec2Isabelle
  imports Main
begin

section \<open>Calendar arithmetic used by the scheduling handler\<close>

text \<open>
  The handler \<open>method_specification_success\<close> of \<open>server.py\<close> works on timestamps
  through the \<open>arrow\<close> library, whose \<open>replace(months=+n)\<close> and \<open>replace(years=+n)\<close>
  add a \<open>dateutil\<close> \<open>relativedelta\<close> to the underlying \<open>datetime\<close>. A timestamp is
  modelled by its calendar fields; the time of day, which no operation of the handler
  changes, is one number (microseconds since midnight).
\<close>

record datetime =
  dt_year :: nat
  dt_month :: nat
  dt_day :: nat
  dt_time :: nat

text \<open>Python raises \<open>ValueError\<close> when a date leaves the years 1 to 9999.\<close>

datatype error = ValueError

definition MAXYEAR :: nat where
  "MAXYEAR = 9999"

definition isleap :: "nat \<Rightarrow> bool" where
  "isleap year = (year mod 4 = 0 \<and> (year mod 100 \<noteq> 0 \<or> year mod 400 = 0))"

text \<open>\<open>calendar.monthrange(year, month)[1]\<close>: the number of days of a month.\<close>

definition days_in_month :: "nat \<Rightarrow> nat \<Rightarrow> nat" where
  "days_in_month year month =
     (if month = 2 then (if isleap year then 29 else 28)
      else if month = 4 \<or> month = 6 \<or> month = 9 \<or> month = 11 then 30
      else 31)"

text \<open>
  \<open>dt + relativedelta(years=years, months=months)\<close> with \<open>months \<le> 12\<close>: the month
  is advanced, carrying once into the year, and the day is cut down to the length of
  the month reached. A year beyond 9999 raises.
\<close>

definition add_relativedelta :: "nat \<Rightarrow> nat \<Rightarrow> datetime \<Rightarrow> error + datetime" where
  "add_relativedelta years months dt =
     (let year = dt_year dt + years;
          month = dt_month dt + months;
          year' = (if month > 12 then year + 1 else year);
          month' = (if month > 12 then month - 12 else month)
      in if year' > MAXYEAR then Inl ValueError
         else Inr (dt\<lparr>dt_year := year', dt_month := month',
                      dt_day := min (days_in_month year' month') (dt_day dt)\<rparr>))"

definition replace_months :: "nat \<Rightarrow> datetime \<Rightarrow> error + datetime" where
  "replace_months n dt = add_relativedelta 0 n dt"

definition replace_years :: "nat \<Rightarrow> datetime \<Rightarrow> error + datetime" where
  "replace_years n dt = add_relativedelta n 0 dt"

text \<open>The order of \<open>datetime\<close> values: lexicographic on the fields.\<close>

definition dt_less :: "datetime \<Rightarrow> datetime \<Rightarrow> bool" where
  "dt_less a b =
     (dt_year a < dt_year b \<or>
      (dt_year a = dt_year b \<and>
       (dt_month a < dt_month b \<or>
        (dt_month a = dt_month b \<and>
         (dt_day a < dt_day b \<or>
          (dt_day a = dt_day b \<and> dt_time a < dt_time b))))))"

section \<open>The handlers\<close>

text \<open>
  \<open>contact_added\<close> turns the relationship chosen in the form into the code stored
  with the contact.
\<close>

definition contact_added_relatp_type :: "string \<Rightarrow> string" where
  "contact_added_relatp_type relatp =
     (if relatp = ''friend'' then ''fr''
      else if relatp = ''family'' then ''fam''
      else ''prf'')"

text \<open>A row of the \<open>Event\<close> table, as the handler builds it.\<close>

record Event =
  user_id :: nat
  relatp_id :: nat
  rcmdn :: string
  scheduled_at :: datetime

text \<open>
  The \<open>for desired_item in desired_list\<close> loop of \<open>method_specification_success\<close>.
  The state is the current \<open>start_date\<close> and the events added to the session so far.
  Each item adds one event at the current date and then moves the date on, by one
  month for the codes \<open>fr\<close> and \<open>fam\<close> and by four months otherwise.
\<close>

fun add_desired_items ::
  "nat \<Rightarrow> nat \<Rightarrow> string \<Rightarrow> string list \<Rightarrow> datetime \<times> Event list
    \<Rightarrow> error + (datetime \<times> Event list)" where
  "add_desired_items uid rid relatp_type [] (start_date, added) = Inr (start_date, added)"
| "add_desired_items uid rid relatp_type (desired_item # rest) (start_date, added) =
     (if relatp_type = ''fr'' \<or> relatp_type = ''fam'' then
        (let new_event = \<lparr>user_id = uid, relatp_id = rid, rcmdn = desired_item,
                          scheduled_at = start_date\<rparr>
         in case replace_months 1 start_date of
              Inl e \<Rightarrow> Inl e
            | Inr start_date' \<Rightarrow>
                add_desired_items uid rid relatp_type rest (start_date', added @ [new_event]))
      else
        (let new_event = \<lparr>user_id = uid, relatp_id = rid, rcmdn = desired_item,
                          scheduled_at = start_date\<rparr>
         in case replace_months 4 start_date of
              Inl e \<Rightarrow> Inl e
            | Inr start_date' \<Rightarrow>
                add_desired_items uid rid relatp_type rest (start_date', added @ [new_event])))"

text \<open>
  The \<open>while start_date < yr_from_now\<close> loop. It may run forever, so the result is
  an option: \<open>None\<close> stands for a loop that never returns, \<open>Some (Inl e)\<close> for an
  exception, \<open>Some (Inr added)\<close> for the events handed to the session.
\<close>

partial_function (option) schedule_events ::
  "nat \<Rightarrow> nat \<Rightarrow> string \<Rightarrow> string list \<Rightarrow> datetime \<Rightarrow> datetime \<Rightarrow> Event list
    \<Rightarrow> (error + Event list) option" where
  "schedule_events uid rid relatp_type desired_list yr_from_now start_date added =
     (if dt_less start_date yr_from_now then
        (case add_desired_items uid rid relatp_type desired_list (start_date, added) of
           Inl e \<Rightarrow> Some (Inl e)
         | Inr (start_date', added') \<Rightarrow>
             schedule_events uid rid relatp_type desired_list yr_from_now start_date' added')
      else Some (Inr added))"

text \<open>
  \<open>method_specification_success\<close>, from the stored creation date of the relationship
  on: the start date is one month after the creation date, the bound one year after
  the start date.
\<close>

definition method_specification_success ::
  "nat \<Rightarrow> nat \<Rightarrow> datetime \<Rightarrow> string \<Rightarrow> string list \<Rightarrow> (error + Event list) option" where
  "method_specification_success uid rid arrow_created_at relatp_type desired_list =
     (case replace_months 1 arrow_created_at of
        Inl e \<Rightarrow> Some (Inl e)
      | Inr start_date \<Rightarrow>
          (case replace_years 1 start_date of
             Inl e \<Rightarrow> Some (Inl e)
           | Inr yr_from_now \<Rightarrow>
               schedule_events uid rid relatp_type desired_list yr_from_now start_date []))"

declare schedule_events.simps [code]

section \<open>Notions used to state the properties\<close>

text \<open>
  The timestamps a Python \<open>datetime\<close> can hold: a year from 1 to 9999, a month from
  1 to 12, a day of that month, and a time of day below 24 hours (in microseconds).
\<close>

definition valid_datetime :: "datetime \<Rightarrow> bool" where
  "valid_datetime d =
     (1 \<le> dt_year d \<and> dt_year d \<le> MAXYEAR \<and> 1 \<le> dt_month d \<and> dt_month d \<le> 12 \<and>
      1 \<le> dt_day d \<and> dt_day d \<le> days_in_month (dt_year d) (dt_month d) \<and>
      dt_time d < 86400000000)"

text \<open>The months of the calendar, numbered consecutively.\<close>

definition month_index :: "datetime \<Rightarrow> nat" where
  "month_index d = 12 * dt_year d + dt_month d"

text \<open>The number of months by which the loop body moves the date on, per event.\<close>

definition step_months :: "string \<Rightarrow> nat" where
  "step_months relatp_type = (if relatp_type = ''fr'' \<or> relatp_type = ''fam'' then 1 else 4)"

text \<open>
  \<open>linked n d xs d'\<close>: the dates \<open>xs\<close> start at \<open>d\<close>, each is \<open>n\<close> months after the
  one before it, and \<open>d'\<close> is \<open>n\<close> months after the last one (or \<open>d\<close> itself when
  \<open>xs\<close> is empty).
\<close>

fun linked :: "nat \<Rightarrow> datetime \<Rightarrow> datetime list \<Rightarrow> datetime \<Rightarrow> bool" where
  "linked n d [] d' = (d' = d)"
| "linked n d (x # xs) d' =
     (x = d \<and> (case replace_months n d of Inl e \<Rightarrow> False | Inr d2 \<Rightarrow> linked n d2 xs d'))"

text \<open>The events of a run that returned, and whether a run raised.\<close>

definition events_of :: "(error + Event list) option \<Rightarrow> Event list" where
  "events_of r = (case r of Some (Inr added) \<Rightarrow> added | _ \<Rightarrow> [])"

definition raised :: "(error + Event list) option \<Rightarrow> bool" where
  "raised r = (case r of Some (Inl e) \<Rightarrow> True | _ \<Rightarrow> False)"

text \<open>An event row written out field by field.\<close>

definition mk_event :: "nat \<Rightarrow> nat \<Rightarrow> string \<Rightarrow> nat \<Rightarrow> nat \<Rightarrow> nat \<Rightarrow> nat \<Rightarrow> Event" where
  "mk_event uid rid item y m d t =
     \<lparr>user_id = uid, relatp_id = rid, rcmdn = item,
      scheduled_at = \<lparr>dt_year = y, dt_month = m, dt_day = d, dt_time = t\<rparr>\<rparr>"


lemmas calendar_defs = replace_months_def replace_years_def add_relativedelta_def MAXYEAR_def
  days_in_month_def isleap_def dt_less_def

section \<open>Calendar lemmas\<close>

lemma days_in_month_ge: "28 \<le> days_in_month y m"
  by (simp add: days_in_month_def)


lemma replace_months_Inr:
  assumes "valid_datetime d" "1 \<le> n" "n \<le> 12" "month_index d + n \<le> 120000"
  shows "\<exists>d'. replace_months n d = Inr d' \<and> valid_datetime d' \<and>
           month_index d' = month_index d + n \<and> dt_time d' = dt_time d \<and>
           dt_day d' = min (days_in_month (dt_year d') (dt_month d')) (dt_day d)"
proof (cases "dt_month d + n > 12")
  case True
  with assms have y: "dt_year d + 1 \<le> 9999"
    by (simp add: month_index_def valid_datetime_def)
  have d1: "1 \<le> min (days_in_month (dt_year d + 1) (dt_month d + n - 12)) (dt_day d)"
    using assms(1) days_in_month_ge [of "dt_year d + 1" "dt_month d + n - 12"]
    by (simp add: valid_datetime_def)
  from True y d1 assms show ?thesis
    by (auto simp: replace_months_def add_relativedelta_def Let_def MAXYEAR_def
        valid_datetime_def month_index_def)
next
  case False
  have d1: "1 \<le> min (days_in_month (dt_year d) (dt_month d + n)) (dt_day d)"
    using assms(1) days_in_month_ge [of "dt_year d" "dt_month d + n"]
    by (simp add: valid_datetime_def)
  from False d1 assms show ?thesis
    by (auto simp: replace_months_def add_relativedelta_def Let_def MAXYEAR_def
        valid_datetime_def month_index_def)
qed

lemma replace_months_props:
  assumes "valid_datetime d" "1 \<le> n" "n \<le> 12" "replace_months n d = Inr d'"
  shows "valid_datetime d' \<and> month_index d' = month_index d + n \<and>
         month_index d + n \<le> 120000 \<and> dt_time d' = dt_time d \<and>
         dt_day d' = min (days_in_month (dt_year d') (dt_month d')) (dt_day d)"
proof -
  have "month_index d + n \<le> 120000"
    using assms
    by (auto simp: replace_months_def add_relativedelta_def Let_def MAXYEAR_def
        valid_datetime_def month_index_def split: if_splits)
  from replace_months_Inr [OF assms(1-3) this] assms(4) show ?thesis
    using \<open>month_index d + n \<le> 120000\<close> by auto
qed

lemma replace_years_props:
  assumes "valid_datetime d" "replace_years 1 d = Inr d'"
  shows "valid_datetime d' \<and> month_index d' = month_index d + 12 \<and> dt_time d' = dt_time d \<and>
         dt_day d' = min (days_in_month (dt_year d') (dt_month d')) (dt_day d)"
proof -
  have d1: "1 \<le> min (days_in_month (dt_year d + 1) (dt_month d)) (dt_day d)"
    using assms(1) days_in_month_ge [of "dt_year d + 1" "dt_month d"]
    by (simp add: valid_datetime_def)
  from assms d1 show ?thesis
    by (auto simp: replace_years_def add_relativedelta_def Let_def MAXYEAR_def
        valid_datetime_def month_index_def split: if_splits)
qed

lemma replace_years_Inr:
  assumes "valid_datetime d" "month_index d + 12 \<le> 120000"
  shows "\<exists>d'. replace_years 1 d = Inr d'"
  using assms
  by (simp add: replace_years_def add_relativedelta_def Let_def MAXYEAR_def
      valid_datetime_def month_index_def)

lemma month_index_less_dt_less:
  assumes "valid_datetime a" "valid_datetime b" "month_index a < month_index b"
  shows "dt_less a b"
  using assms by (auto simp: valid_datetime_def month_index_def dt_less_def)

lemma dt_less_month_index_le:
  assumes "valid_datetime a" "valid_datetime b" "dt_less a b"
  shows "month_index a \<le> month_index b"
  using assms by (auto simp: valid_datetime_def month_index_def dt_less_def)

lemma dt_less_irrefl: "\<not> dt_less a a"
  by (simp add: dt_less_def)

section \<open>The pass over the desired list\<close>

lemma step_months_bounds: "1 \<le> step_months ty \<and> step_months ty \<le> 12"
  by (simp add: step_months_def)

lemma add_desired_items_Cons:
  "add_desired_items uid rid ty (item # rest) (d, added) =
     (case replace_months (step_months ty) d of
        Inl e \<Rightarrow> Inl e
      | Inr d' \<Rightarrow> add_desired_items uid rid ty rest
           (d', added @ [\<lparr>user_id = uid, relatp_id = rid, rcmdn = item, scheduled_at = d\<rparr>]))"
  by (simp add: step_months_def)

lemma linked_append:
  "linked n d xs d1 \<Longrightarrow> linked n d1 ys d2 \<Longrightarrow> linked n d (xs @ ys) d2"
  by (induction xs arbitrary: d) (auto split: sum.splits)

text \<open>What one pass over the desired list adds, when it returns.\<close>

lemma add_desired_items_result:
  "add_desired_items uid rid ty items (d, added) = Inr (d', added') \<Longrightarrow>
   \<exists>new. added' = added @ new \<and> map rcmdn new = items \<and>
         linked (step_months ty) d (map scheduled_at new) d' \<and>
         (\<forall>e \<in> set new. user_id e = uid \<and> relatp_id e = rid)"
proof (induction items arbitrary: d added)
  case Nil
  then have "added' = added @ [] \<and> map rcmdn [] = ([]::string list) \<and>
      linked (step_months ty) d (map scheduled_at []) d' \<and>
      (\<forall>e \<in> set ([]::Event list). user_id e = uid \<and> relatp_id e = rid)"
    by simp
  then show ?case by (rule exI)
next
  case (Cons item rest)
  let ?ev = "\<lparr>user_id = uid, relatp_id = rid, rcmdn = item, scheduled_at = d\<rparr>"
  show ?case
  proof (cases "replace_months (step_months ty) d")
    case (Inl e)
    with Cons.prems show ?thesis
      by (simp add: add_desired_items_Cons del: add_desired_items.simps)
  next
    case (Inr d1)
    with Cons.prems have rec:
      "add_desired_items uid rid ty rest (d1, added @ [?ev]) = Inr (d', added')"
      by (simp add: add_desired_items_Cons del: add_desired_items.simps)
    from Cons.IH [OF rec] obtain new where
      n1: "added' = (added @ [?ev]) @ new" and n2: "map rcmdn new = rest" and
      n3: "linked (step_months ty) d1 (map scheduled_at new) d'" and
      n4: "\<forall>e \<in> set new. user_id e = uid \<and> relatp_id e = rid"
      by (elim exE conjE)
    have "added' = added @ (?ev # new)" using n1 by simp
    moreover have "map rcmdn (?ev # new) = item # rest" using n2 by simp
    moreover have "linked (step_months ty) d (map scheduled_at (?ev # new)) d'"
      using Inr n3 by simp
    moreover have "\<forall>e \<in> set (?ev # new). user_id e = uid \<and> relatp_id e = rid"
      using n4 by simp
    ultimately have "added' = added @ (?ev # new) \<and> map rcmdn (?ev # new) = item # rest \<and>
      linked (step_months ty) d (map scheduled_at (?ev # new)) d' \<and>
      (\<forall>e \<in> set (?ev # new). user_id e = uid \<and> relatp_id e = rid)"
      by (intro conjI)
    then show ?thesis by (rule exI)
  qed
qed

text \<open>A pass over the desired list returns when the calendar is not exhausted.\<close>

lemma add_desired_items_returns:
  "valid_datetime d \<Longrightarrow> month_index d + step_months ty * length items \<le> 120000 \<Longrightarrow>
   \<exists>d' added'. add_desired_items uid rid ty items (d, added) = Inr (d', added') \<and>
      valid_datetime d' \<and> month_index d' = month_index d + step_months ty * length items"
proof (induction items arbitrary: d added)
  case Nil
  then show ?case by simp
next
  case (Cons item rest)
  let ?ev = "\<lparr>user_id = uid, relatp_id = rid, rcmdn = item, scheduled_at = d\<rparr>"
  have b1: "1 \<le> step_months ty" and b2: "step_months ty \<le> 12"
    using step_months_bounds [of ty] by simp_all
  have b3: "month_index d + step_months ty \<le> 120000" using Cons.prems(2) by simp
  from replace_months_Inr [OF Cons.prems(1) b1 b2 b3]
  obtain d1 where d1: "replace_months (step_months ty) d = Inr d1" and v1: "valid_datetime d1"
    and m1: "month_index d1 = month_index d + step_months ty"
    by (elim exE conjE)
  have "month_index d1 + step_months ty * length rest \<le> 120000"
    using m1 Cons.prems(2) by simp
  from Cons.IH [OF v1 this, of "added @ [?ev]"]
  obtain d' added' where
    r1: "add_desired_items uid rid ty rest (d1, added @ [?ev]) = Inr (d', added')" and
    r2: "valid_datetime d'" and
    r3: "month_index d' = month_index d1 + step_months ty * length rest"
    by (elim exE conjE)
  have "add_desired_items uid rid ty (item # rest) (d, added) = Inr (d', added')"
    using d1 r1 by (simp add: add_desired_items_Cons del: add_desired_items.simps)
  moreover have "month_index d' = month_index d + step_months ty * length (item # rest)"
    using r3 m1 by simp
  ultimately have "add_desired_items uid rid ty (item # rest) (d, added) = Inr (d', added') \<and>
      valid_datetime d' \<and>
      month_index d' = month_index d + step_months ty * length (item # rest)"
    using r2 by (intro conjI)
  then show ?case by (intro exI)
qed

lemma linked_valid_sorted:
  "linked n d xs d' \<Longrightarrow> valid_datetime d \<Longrightarrow> 1 \<le> n \<Longrightarrow> n \<le> 12 \<Longrightarrow>
   valid_datetime d' \<and> month_index d' = month_index d + n * length xs \<and>
   (\<forall>i < length xs. valid_datetime (xs ! i) \<and> month_index (xs ! i) = month_index d + n * i)"
proof (induction xs arbitrary: d)
  case Nil
  then show ?case by simp
next
  case (Cons x xs)
  from Cons.prems(1) obtain d2 where x: "x = d" and d2: "replace_months n d = Inr d2"
    and l: "linked n d2 xs d'"
    by (cases "replace_months n d") simp_all
  from replace_months_props [OF Cons.prems(2,3,4) d2]
  have v2: "valid_datetime d2" and m2: "month_index d2 = month_index d + n" by simp_all
  from Cons.IH [OF l v2 Cons.prems(3,4)]
  have ih: "valid_datetime d'" "month_index d' = month_index d2 + n * length xs"
    "\<forall>i < length xs. valid_datetime (xs ! i) \<and> month_index (xs ! i) = month_index d2 + n * i"
    by simp_all
  have "\<forall>i < length (x # xs). valid_datetime ((x # xs) ! i) \<and>
          month_index ((x # xs) ! i) = month_index d + n * i"
  proof (intro allI impI)
    fix i assume i: "i < length (x # xs)"
    show "valid_datetime ((x # xs) ! i) \<and> month_index ((x # xs) ! i) = month_index d + n * i"
    proof (cases i)
      case 0
      then show ?thesis using x Cons.prems(2) by simp
    next
      case (Suc j)
      with i ih(3) m2 show ?thesis by simp
    qed
  qed
  with ih(1,2) m2 show ?case by simp
qed

lemma linked_nth:
  "linked n d xs d' \<Longrightarrow>
   (xs \<noteq> [] \<longrightarrow> xs ! 0 = d) \<and>
   (\<forall>i. Suc i < length xs \<longrightarrow> replace_months n (xs ! i) = Inr (xs ! Suc i))"
proof (induction xs arbitrary: d)
  case Nil
  then show ?case by simp
next
  case (Cons x xs)
  from Cons.prems(1) obtain d2 where x: "x = d" and d2: "replace_months n d = Inr d2"
    and l: "linked n d2 xs d'"
    by (cases "replace_months n d") simp_all
  from Cons.IH [OF l] have ih: "xs \<noteq> [] \<longrightarrow> xs ! 0 = d2"
    "\<forall>i. Suc i < length xs \<longrightarrow> replace_months n (xs ! i) = Inr (xs ! Suc i)"
    by simp_all
  have "\<forall>i. Suc i < length (x # xs) \<longrightarrow> replace_months n ((x # xs) ! i) = Inr ((x # xs) ! Suc i)"
  proof (intro allI impI)
    fix i assume i: "Suc i < length (x # xs)"
    show "replace_months n ((x # xs) ! i) = Inr ((x # xs) ! Suc i)"
    proof (cases i)
      case 0
      with i have "xs \<noteq> []" by auto
      with ih(1) x d2 0 show ?thesis by simp
    next
      case (Suc j)
      with i ih(2) show ?thesis by simp
    qed
  qed
  with x show ?case by simp
qed

section \<open>The scheduling loop\<close>

lemma schedule_events_empty_aux:
  assumes "schedule_events uid rid ty items yr d added = Some y"
  shows "items = [] \<longrightarrow> \<not> dt_less d yr"
proof (rule schedule_events.raw_induct
    [where P = "\<lambda>uid rid ty items yr d added y. items = [] \<longrightarrow> \<not> dt_less d yr", OF _ assms])
  fix f :: "nat \<Rightarrow> nat \<Rightarrow> string \<Rightarrow> string list \<Rightarrow> datetime \<Rightarrow> datetime \<Rightarrow> Event list
    \<Rightarrow> (error + Event list) option"
  fix uid rid ty items yr d added y
  assume ih: "\<And>uid rid ty items yr d added y.
      f uid rid ty items yr d added = Some y \<Longrightarrow> items = [] \<longrightarrow> \<not> dt_less d yr"
  assume body: "(if dt_less d yr then
        (case add_desired_items uid rid ty items (d, added) of
           Inl e \<Rightarrow> Some (Inl e)
         | Inr (start_date', added') \<Rightarrow> f uid rid ty items yr start_date' added')
      else Some (Inr added)) = Some y"
  show "items = [] \<longrightarrow> \<not> dt_less d yr"
  proof (intro impI notI)
    assume e: "items = []" and l: "dt_less d yr"
    with body have "f uid rid ty items yr d added = Some y" by simp
    from ih [OF this] e l show False by simp
  qed
qed

lemma schedule_events_empty:
  assumes "dt_less d yr"
  shows "schedule_events uid rid ty [] yr d added = None"
proof (cases "schedule_events uid rid ty [] yr d added")
  case None
  then show ?thesis .
next
  case (Some y)
  from schedule_events_empty_aux [OF Some] assms show ?thesis by simp
qed

lemma schedule_events_total:
  assumes vy: "valid_datetime yr" and ne: "items \<noteq> []"
    and rng: "month_index yr + step_months ty * length items \<le> 120000"
  shows "valid_datetime d \<Longrightarrow>
    \<exists>new d' k. schedule_events uid rid ty items yr d added = Some (Inr (added @ new)) \<and>
       map rcmdn new = concat (replicate k items) \<and>
       linked (step_months ty) d (map scheduled_at new) d' \<and>
       (\<forall>e \<in> set new. user_id e = uid \<and> relatp_id e = rid) \<and>
       (dt_less d yr \<longrightarrow> 1 \<le> k) \<and>
       (new \<noteq> [] \<longrightarrow> month_index d + step_months ty * length new
                       \<le> month_index yr + step_months ty * length items)"
proof (induction "month_index yr + 1 - month_index d" arbitrary: d added rule: less_induct)
  case less
  let ?s = "step_months ty"
  have s1: "1 \<le> ?s" and s12: "?s \<le> 12" using step_months_bounds [of ty] by simp_all
  show ?case
  proof (cases "dt_less d yr")
    case False
    then have "schedule_events uid rid ty items yr d added = Some (Inr (added @ []))"
      by (subst schedule_events.simps) simp
    moreover have "map rcmdn ([]::Event list) = concat (replicate 0 items)" by simp
    moreover have "linked ?s d (map scheduled_at []) d" by simp
    ultimately have "schedule_events uid rid ty items yr d added = Some (Inr (added @ [])) \<and>
       map rcmdn [] = concat (replicate 0 items) \<and>
       linked ?s d (map scheduled_at []) d \<and>
       (\<forall>e \<in> set ([]::Event list). user_id e = uid \<and> relatp_id e = rid) \<and>
       (dt_less d yr \<longrightarrow> 1 \<le> (0::nat)) \<and>
       (([]::Event list) \<noteq> [] \<longrightarrow> month_index d + ?s * length ([]::Event list)
                       \<le> month_index yr + ?s * length items)"
      using False by simp
    then show ?thesis by (intro exI)
  next
    case True
    from dt_less_month_index_le [OF less.prems vy True]
    have le: "month_index d \<le> month_index yr" .
    with rng have "month_index d + ?s * length items \<le> 120000" by simp
    from add_desired_items_returns [OF less.prems this, of uid rid added]
    obtain d1 added1 where
      a1: "add_desired_items uid rid ty items (d, added) = Inr (d1, added1)" and
      v1: "valid_datetime d1" and
      m1: "month_index d1 = month_index d + ?s * length items"
      by (elim exE conjE)
    from add_desired_items_result [OF a1] obtain new1 where
      n1: "added1 = added @ new1" and n2: "map rcmdn new1 = items" and
      n3: "linked ?s d (map scheduled_at new1) d1" and
      n4: "\<forall>e \<in> set new1. user_id e = uid \<and> relatp_id e = rid"
      by (elim exE conjE)
    have len1: "length new1 = length items" using n2 by (metis length_map)
    have "0 < length items" using ne by simp
    with s1 have pos: "0 < ?s * length items" by simp
    have dec: "month_index yr + 1 - month_index d1 < month_index yr + 1 - month_index d"
      using pos m1 le by linarith
    from less.hyps [OF dec v1, of added1] obtain new2 d' k where
      r1: "schedule_events uid rid ty items yr d1 added1 = Some (Inr (added1 @ new2))" and
      r2: "map rcmdn new2 = concat (replicate k items)" and
      r3: "linked ?s d1 (map scheduled_at new2) d'" and
      r4: "\<forall>e \<in> set new2. user_id e = uid \<and> relatp_id e = rid" and
      r6: "new2 \<noteq> [] \<longrightarrow> month_index d1 + ?s * length new2
                       \<le> month_index yr + ?s * length items"
      by (elim exE conjE)
    have "schedule_events uid rid ty items yr d added = Some (Inr (added @ (new1 @ new2)))"
      using True a1 r1 n1 by (subst schedule_events.simps) simp
    moreover have "map rcmdn (new1 @ new2) = concat (replicate (Suc k) items)"
      using n2 r2 by simp
    moreover have "linked ?s d (map scheduled_at (new1 @ new2)) d'"
      using linked_append [OF n3 r3] by simp
    moreover have "\<forall>e \<in> set (new1 @ new2). user_id e = uid \<and> relatp_id e = rid"
      using n4 r4 by auto
    moreover have "dt_less d yr \<longrightarrow> 1 \<le> Suc k" by simp
    moreover have "new1 @ new2 \<noteq> [] \<longrightarrow> month_index d + ?s * length (new1 @ new2)
                       \<le> month_index yr + ?s * length items"
    proof (cases "new2 = []")
      case True
      with len1 le show ?thesis by simp
    next
      case False
      with r6 m1 len1 show ?thesis by (simp add: distrib_left)
    qed
    ultimately have
      "schedule_events uid rid ty items yr d added = Some (Inr (added @ (new1 @ new2))) \<and>
       map rcmdn (new1 @ new2) = concat (replicate (Suc k) items) \<and>
       linked ?s d (map scheduled_at (new1 @ new2)) d' \<and>
       (\<forall>e \<in> set (new1 @ new2). user_id e = uid \<and> relatp_id e = rid) \<and>
       (dt_less d yr \<longrightarrow> 1 \<le> Suc k) \<and>
       (new1 @ new2 \<noteq> [] \<longrightarrow> month_index d + ?s * length (new1 @ new2)
                       \<le> month_index yr + ?s * length items)"
      by (intro conjI)
    then show ?thesis by (intro exI)
  qed
qed

section \<open>The handler as a whole\<close>

lemma step_months_le4: "step_months ty \<le> 4"
  by (simp add: step_months_def)

text \<open>The whole handler, on a valid creation date and a non-empty list.\<close>

lemma method_specification_success_returns:
  assumes v: "valid_datetime created" and ne: "desired_list \<noteq> []"
    and rng: "dt_year created + length desired_list \<le> 9997"
  shows "\<exists>events start yr d' k.
     method_specification_success uid rid created ty desired_list = Some (Inr events) \<and>
     replace_months 1 created = Inr start \<and> valid_datetime start \<and>
     month_index start = month_index created + 1 \<and>
     replace_years 1 start = Inr yr \<and> valid_datetime yr \<and>
     month_index yr = month_index start + 12 \<and>
     1 \<le> k \<and> map rcmdn events = concat (replicate k desired_list) \<and>
     linked (step_months ty) start (map scheduled_at events) d' \<and>
     (\<forall>e \<in> set events. user_id e = uid \<and> relatp_id e = rid) \<and>
     step_months ty * length events \<le> 12 + step_months ty * length desired_list"
proof -
  let ?s = "step_months ty"
  have m: "dt_month created \<le> 12" using v by (simp add: valid_datetime_def)
  have r1: "month_index created + 1 \<le> 120000"
    using rng m by (simp add: month_index_def)
  from replace_months_Inr [OF v _ _ r1] obtain start where
    s1: "replace_months 1 created = Inr start" and s2: "valid_datetime start" and
    s3: "month_index start = month_index created + 1"
    by (elim exE conjE | simp)+
  have r2: "month_index start + 12 \<le> 120000"
    using rng m s3 by (simp add: month_index_def)
  from replace_years_Inr [OF s2 r2] obtain yr where y1: "replace_years 1 start = Inr yr" ..
  from replace_years_props [OF s2 y1] have y2: "valid_datetime yr" and
    y3: "month_index yr = month_index start + 12"
    by simp_all
  have less: "dt_less start yr"
    using month_index_less_dt_less [OF s2 y2] y3 by simp
  have "4 * length desired_list + 12 * dt_year created \<le> 12 * 9997"
    using rng by linarith
  moreover have "?s * length desired_list \<le> 4 * length desired_list"
    by (rule mult_le_mono1) (rule step_months_le4)
  moreover have "month_index yr = 12 * dt_year created + dt_month created + 13"
    using y3 s3 by (simp add: month_index_def)
  ultimately have r3: "month_index yr + ?s * length desired_list \<le> 120000"
    using m by linarith
  from schedule_events_total [OF y2 ne r3 s2, of uid rid "[]"] obtain new d' k where
    t1: "schedule_events uid rid ty desired_list yr start [] = Some (Inr ([] @ new))" and
    t2: "map rcmdn new = concat (replicate k desired_list)" and
    t3: "linked ?s start (map scheduled_at new) d'" and
    t4: "\<forall>e \<in> set new. user_id e = uid \<and> relatp_id e = rid" and
    t5: "dt_less start yr \<longrightarrow> 1 \<le> k" and
    t6: "new \<noteq> [] \<longrightarrow> month_index start + ?s * length new
            \<le> month_index yr + ?s * length desired_list"
    by (elim exE conjE)
  have k: "1 \<le> k" using t5 less by simp
  have res: "method_specification_success uid rid created ty desired_list = Some (Inr new)"
    using s1 y1 t1 by (simp add: method_specification_success_def)
  have bound: "?s * length new \<le> 12 + ?s * length desired_list"
  proof (cases "new = []")
    case True
    then show ?thesis by simp
  next
    case False
    with t6 y3 show ?thesis by simp
  qed
  have "method_specification_success uid rid created ty desired_list = Some (Inr new) \<and>
     replace_months 1 created = Inr start \<and> valid_datetime start \<and>
     month_index start = month_index created + 1 \<and>
     replace_years 1 start = Inr yr \<and> valid_datetime yr \<and>
     month_index yr = month_index start + 12 \<and>
     1 \<le> k \<and> map rcmdn new = concat (replicate k desired_list) \<and>
     linked ?s start (map scheduled_at new) d' \<and>
     (\<forall>e \<in> set new. user_id e = uid \<and> relatp_id e = rid) \<and>
     ?s * length new \<le> 12 + ?s * length desired_list"
    using res s1 s2 s3 y1 y2 y3 k t2 t3 t4 bound by (intro conjI)
  then show ?thesis by (intro exI)
qed

lemma nonempty_of_rounds:
  assumes "map rcmdn events = concat (replicate k desired_list)" "1 \<le> k" "desired_list \<noteq> []"
  shows "events \<noteq> []"
proof
  assume "events = []"
  with assms(1) have "concat (replicate k desired_list) = []" by simp
  moreover from assms(2) obtain j where "k = Suc j" by (cases k) simp_all
  ultimately show False using assms(3) by simp
qed



text \<open>The category matters only through the test of the loop body.\<close>

lemma add_desired_items_category:
  assumes "(ty = ''fr'' \<or> ty = ''fam'') = (ty' = ''fr'' \<or> ty' = ''fam'')"
  shows "add_desired_items uid rid ty items (d, added) =
         add_desired_items uid rid ty' items (d, added)"
proof -
  have s: "step_months ty = step_months ty'" using assms by (simp add: step_months_def)
  show ?thesis
  proof (induction items arbitrary: d added)
    case Nil
    show ?case by simp
  next
    case (Cons item rest)
    show ?case
      by (cases "replace_months (step_months ty') d")
        (simp_all add: add_desired_items_Cons s Cons.IH del: add_desired_items.simps)
  qed
qed

lemma schedule_events_category_aux:
  assumes c: "(ty = ''fr'' \<or> ty = ''fam'') = (ty' = ''fr'' \<or> ty' = ''fam'')"
    and r: "schedule_events uid rid t items yr d added = Some y"
  shows "t = ty \<longrightarrow> schedule_events uid rid ty' items yr d added = Some y"
proof (rule schedule_events.raw_induct
    [where P = "\<lambda>uid rid t items yr d added y.
       t = ty \<longrightarrow> schedule_events uid rid ty' items yr d added = Some y", OF _ r])
  fix f :: "nat \<Rightarrow> nat \<Rightarrow> string \<Rightarrow> string list \<Rightarrow> datetime \<Rightarrow> datetime \<Rightarrow> Event list
    \<Rightarrow> (error + Event list) option"
  fix uid rid t items yr d added y
  assume ih: "\<And>uid rid t items yr d added y.
      f uid rid t items yr d added = Some y \<Longrightarrow>
      t = ty \<longrightarrow> schedule_events uid rid ty' items yr d added = Some y"
  assume body: "(if dt_less d yr then
        (case add_desired_items uid rid t items (d, added) of
           Inl e \<Rightarrow> Some (Inl e)
         | Inr (start_date', added') \<Rightarrow> f uid rid t items yr start_date' added')
      else Some (Inr added)) = Some y"
  show "t = ty \<longrightarrow> schedule_events uid rid ty' items yr d added = Some y"
  proof
    assume t: "t = ty"
    show "schedule_events uid rid ty' items yr d added = Some y"
    proof (cases "dt_less d yr")
      case False
      with body show ?thesis by (subst schedule_events.simps) simp
    next
      case True
      have eq: "add_desired_items uid rid t items (d, added) =
                add_desired_items uid rid ty' items (d, added)"
        using add_desired_items_category [OF c] t by simp
      from body True have body':
        "(case add_desired_items uid rid ty' items (d, added) of
           Inl e \<Rightarrow> Some (Inl e)
         | Inr (start_date', added') \<Rightarrow> f uid rid t items yr start_date' added') = Some y"
        by (simp add: eq)
      show ?thesis
      proof (cases "add_desired_items uid rid ty' items (d, added)")
        case (Inl e)
        with body' True show ?thesis by (subst schedule_events.simps) simp
      next
        case (Inr p)
        obtain d1 added1 where p: "p = (d1, added1)" by (cases p)
        with body' Inr have "f uid rid t items yr d1 added1 = Some y" by simp
        from ih [OF this] t have "schedule_events uid rid ty' items yr d1 added1 = Some y"
          by simp
        with True Inr p show ?thesis by (subst schedule_events.simps) simp
      qed
    qed
  qed
qed

lemma schedule_events_category_Some:
  assumes c: "(ty = ''fr'' \<or> ty = ''fam'') = (ty' = ''fr'' \<or> ty' = ''fam'')"
    and r: "schedule_events uid rid ty items yr d added = Some y"
  shows "schedule_events uid rid ty' items yr d added = Some y"
  using schedule_events_category_aux [OF c r] by simp

lemma schedule_events_category:
  assumes c: "(ty = ''fr'' \<or> ty = ''fam'') = (ty' = ''fr'' \<or> ty' = ''fam'')"
  shows "schedule_events uid rid ty items yr d added =
         schedule_events uid rid ty' items yr d added"
proof (cases "schedule_events uid rid ty items yr d added")
  case (Some y)
  with schedule_events_category_Some [OF c Some] show ?thesis by simp
next
  case None
  show ?thesis
  proof (cases "schedule_events uid rid ty' items yr d added")
    case None
    with \<open>schedule_events uid rid ty items yr d added = None\<close> show ?thesis by simp
  next
    case (Some y)
    from c have c': "(ty' = ''fr'' \<or> ty' = ''fam'') = (ty = ''fr'' \<or> ty = ''fam'')" by simp
    from schedule_events_category_Some [OF c' Some] None show ?thesis by simp
  qed
qed

lemma method_specification_success_category:
  assumes c: "(ty = ''fr'' \<or> ty = ''fam'') = (ty' = ''fr'' \<or> ty' = ''fam'')"
  shows "method_specification_success uid rid created ty desired_list =
         method_specification_success uid rid created ty' desired_list"
  by (simp add: method_specification_success_def schedule_events_category [OF c]
      split: sum.splits)

lemma linked_strictly_increasing:
  assumes l: "linked n d xs d'" and v: "valid_datetime d" and n1: "1 \<le> n" and n12: "n \<le> 12"
    and ij: "i < j" "j < length xs"
  shows "dt_less (xs ! i) (xs ! j)"
proof -
  from linked_valid_sorted [OF l v n1 n12] have
    a: "\<forall>i < length xs. valid_datetime (xs ! i) \<and> month_index (xs ! i) = month_index d + n * i"
    by simp
  from ij have i: "i < length xs" by simp
  from a i have vi: "valid_datetime (xs ! i)" and mi: "month_index (xs ! i) = month_index d + n * i"
    by simp_all
  from a ij(2) have vj: "valid_datetime (xs ! j)"
    and mj: "month_index (xs ! j) = month_index d + n * j"
    by simp_all
  from ij(1) n1 have "n * i < n * j" by simp
  with mi mj have "month_index (xs ! i) < month_index (xs ! j)" by simp
  from month_index_less_dt_less [OF vi vj this] show ?thesis .
qed

text \<open>Whenever the loop returns events, the new ones are linked from the date it started at.\<close>

lemma schedule_events_linked_aux:
  assumes r: "schedule_events uid rid ty items yr d added = Some y"
  shows "\<forall>res. y = Inr res \<longrightarrow> valid_datetime d \<longrightarrow>
           (\<exists>new d'. res = added @ new \<and> linked (step_months ty) d (map scheduled_at new) d')"
proof (rule schedule_events.raw_induct
    [where P = "\<lambda>uid rid ty items yr d added y.
       \<forall>res. y = Inr res \<longrightarrow> valid_datetime d \<longrightarrow>
           (\<exists>new d'. res = added @ new \<and> linked (step_months ty) d (map scheduled_at new) d')",
     OF _ r])
  fix f :: "nat \<Rightarrow> nat \<Rightarrow> string \<Rightarrow> string list \<Rightarrow> datetime \<Rightarrow> datetime \<Rightarrow> Event list
    \<Rightarrow> (error + Event list) option"
  fix uid rid ty items yr d added y
  assume ih: "\<And>uid rid ty items yr d added y.
      f uid rid ty items yr d added = Some y \<Longrightarrow>
      \<forall>res. y = Inr res \<longrightarrow> valid_datetime d \<longrightarrow>
           (\<exists>new d'. res = added @ new \<and> linked (step_months ty) d (map scheduled_at new) d')"
  assume body: "(if dt_less d yr then
        (case add_desired_items uid rid ty items (d, added) of
           Inl e \<Rightarrow> Some (Inl e)
         | Inr (start_date', added') \<Rightarrow> f uid rid ty items yr start_date' added')
      else Some (Inr added)) = Some y"
  show "\<forall>res. y = Inr res \<longrightarrow> valid_datetime d \<longrightarrow>
           (\<exists>new d'. res = added @ new \<and> linked (step_months ty) d (map scheduled_at new) d')"
  proof (intro allI impI)
    fix res assume y: "y = Inr res" and v: "valid_datetime d"
    show "\<exists>new d'. res = added @ new \<and> linked (step_months ty) d (map scheduled_at new) d'"
    proof (cases "dt_less d yr")
      case False
      with body y have "res = added @ [] \<and> linked (step_months ty) d (map scheduled_at []) d"
        by simp
      then show ?thesis by (intro exI)
    next
      case True
      show ?thesis
      proof (cases "add_desired_items uid rid ty items (d, added)")
        case (Inl e)
        with body True y show ?thesis by simp
      next
        case (Inr p)
        obtain d1 added1 where p: "p = (d1, added1)" by (cases p)
        from Inr p have a: "add_desired_items uid rid ty items (d, added) = Inr (d1, added1)"
          by simp
        from body True a have fr: "f uid rid ty items yr d1 added1 = Some y" by simp
        from add_desired_items_result [OF a] obtain new1 where
          n1: "added1 = added @ new1" and
          n3: "linked (step_months ty) d (map scheduled_at new1) d1"
          by (elim exE conjE)
        have s1: "1 \<le> step_months ty" and s12: "step_months ty \<le> 12"
          using step_months_bounds [of ty] by simp_all
        from linked_valid_sorted [OF n3 v s1 s12] have v1: "valid_datetime d1" by simp
        from ih [OF fr, rule_format, OF y v1] obtain new2 d' where
          r1: "res = added1 @ new2" and r2: "linked (step_months ty) d1 (map scheduled_at new2) d'"
          by (elim exE conjE)
        have "res = added @ (new1 @ new2)" using r1 n1 by simp
        moreover have "linked (step_months ty) d (map scheduled_at (new1 @ new2)) d'"
          using linked_append [OF n3 r2] by simp
        ultimately have "res = added @ (new1 @ new2) \<and>
            linked (step_months ty) d (map scheduled_at (new1 @ new2)) d'" by (intro conjI)
        then show ?thesis by (intro exI)
      qed
    qed
  qed
qed

lemma method_specification_success_linked:
  assumes v: "valid_datetime created"
    and r: "method_specification_success uid rid created ty desired_list = Some (Inr events)"
  shows "\<exists>start d'. replace_months 1 created = Inr start \<and> valid_datetime start \<and>
           linked (step_months ty) start (map scheduled_at events) d'"
proof (cases "replace_months 1 created")
  case (Inl e)
  with r show ?thesis by (simp add: method_specification_success_def)
next
  case (Inr start)
  from replace_months_props [OF v _ _ Inr] have vs: "valid_datetime start" by simp
  show ?thesis
  proof (cases "replace_years 1 start")
    case (Inl e)
    with r Inr show ?thesis by (simp add: method_specification_success_def)
  next
    case yr: (Inr yr)
    with r Inr have "schedule_events uid rid ty desired_list yr start [] = Some (Inr events)"
      by (simp add: method_specification_success_def)
    from schedule_events_linked_aux [OF this, rule_format, OF refl vs] obtain new d' where
      "events = [] @ new" "linked (step_months ty) start (map scheduled_at new) d'"
      by (elim exE conjE)
    with Inr vs have "replace_months 1 created = Inr start \<and> valid_datetime start \<and>
           linked (step_months ty) start (map scheduled_at events) d'" by simp
    then show ?thesis by (intro exI)
  qed
qed

lemma events_strictly_increasing:
  assumes v: "valid_datetime created"
    and ij: "i < j" "j < length (events_of (method_specification_success uid rid created ty desired_list))"
  shows "dt_less
      (scheduled_at (events_of (method_specification_success uid rid created ty desired_list) ! i))
      (scheduled_at (events_of (method_specification_success uid rid created ty desired_list) ! j))"
proof (cases "method_specification_success uid rid created ty desired_list")
  case None
  with ij(2) show ?thesis by (simp add: events_of_def)
next
  case (Some y)
  show ?thesis
  proof (cases y)
    case (Inl e)
    with Some ij(2) show ?thesis by (simp add: events_of_def)
  next
    case (Inr events)
    with Some have r: "method_specification_success uid rid created ty desired_list
        = Some (Inr events)" by simp
    then have e: "events_of (method_specification_success uid rid created ty desired_list) = events"
      by (simp add: events_of_def)
    from method_specification_success_linked [OF v r] obtain start d' where
      vs: "valid_datetime start" and
      l: "linked (step_months ty) start (map scheduled_at events) d'"
      by (elim exE conjE)
    have s1: "1 \<le> step_months ty" and s12: "step_months ty \<le> 12"
      using step_months_bounds [of ty] by simp_all
    from ij e have j: "j < length (map scheduled_at events)" by simp
    from linked_strictly_increasing [OF l vs s1 s12 ij(1) j] ij e show ?thesis
      by (simp add: nth_map)
  qed
qed



text \<open>
  What the loop has done when it returns events: whole passes over the list, each
  started before the bound, the date reached at the end being no longer before it.
\<close>

lemma schedule_events_result_aux:
  assumes r: "schedule_events uid rid ty items yr d added = Some y"
  shows "\<forall>res. y = Inr res \<longrightarrow> valid_datetime d \<longrightarrow> items \<noteq> [] \<longrightarrow>
     (\<exists>new d' k. res = added @ new \<and> map rcmdn new = concat (replicate k items) \<and>
        linked (step_months ty) d (map scheduled_at new) d' \<and>
        (dt_less d yr \<longrightarrow> 1 \<le> k) \<and> \<not> dt_less d' yr \<and>
        (\<forall>j. j * length items < length new \<longrightarrow>
           dt_less (scheduled_at (new ! (j * length items))) yr))"
proof (rule schedule_events.raw_induct
    [where P = "\<lambda>uid rid ty items yr d added y.
       \<forall>res. y = Inr res \<longrightarrow> valid_datetime d \<longrightarrow> items \<noteq> [] \<longrightarrow>
     (\<exists>new d' k. res = added @ new \<and> map rcmdn new = concat (replicate k items) \<and>
        linked (step_months ty) d (map scheduled_at new) d' \<and>
        (dt_less d yr \<longrightarrow> 1 \<le> k) \<and> \<not> dt_less d' yr \<and>
        (\<forall>j. j * length items < length new \<longrightarrow>
           dt_less (scheduled_at (new ! (j * length items))) yr))",
     OF _ r])
  fix f :: "nat \<Rightarrow> nat \<Rightarrow> string \<Rightarrow> string list \<Rightarrow> datetime \<Rightarrow> datetime \<Rightarrow> Event list
    \<Rightarrow> (error + Event list) option"
  fix uid rid ty items yr d added y
  assume ih: "\<And>uid rid ty items yr d added y.
      f uid rid ty items yr d added = Some y \<Longrightarrow>
      \<forall>res. y = Inr res \<longrightarrow> valid_datetime d \<longrightarrow> items \<noteq> [] \<longrightarrow>
     (\<exists>new d' k. res = added @ new \<and> map rcmdn new = concat (replicate k items) \<and>
        linked (step_months ty) d (map scheduled_at new) d' \<and>
        (dt_less d yr \<longrightarrow> 1 \<le> k) \<and> \<not> dt_less d' yr \<and>
        (\<forall>j. j * length items < length new \<longrightarrow>
           dt_less (scheduled_at (new ! (j * length items))) yr))"
  assume body: "(if dt_less d yr then
        (case add_desired_items uid rid ty items (d, added) of
           Inl e \<Rightarrow> Some (Inl e)
         | Inr (start_date', added') \<Rightarrow> f uid rid ty items yr start_date' added')
      else Some (Inr added)) = Some y"
  show "\<forall>res. y = Inr res \<longrightarrow> valid_datetime d \<longrightarrow> items \<noteq> [] \<longrightarrow>
     (\<exists>new d' k. res = added @ new \<and> map rcmdn new = concat (replicate k items) \<and>
        linked (step_months ty) d (map scheduled_at new) d' \<and>
        (dt_less d yr \<longrightarrow> 1 \<le> k) \<and> \<not> dt_less d' yr \<and>
        (\<forall>j. j * length items < length new \<longrightarrow>
           dt_less (scheduled_at (new ! (j * length items))) yr))"
  proof (intro allI impI)
    fix res assume y: "y = Inr res" and v: "valid_datetime d" and ne: "items \<noteq> []"
    let ?s = "step_months ty"
    show "\<exists>new d' k. res = added @ new \<and> map rcmdn new = concat (replicate k items) \<and>
        linked ?s d (map scheduled_at new) d' \<and>
        (dt_less d yr \<longrightarrow> 1 \<le> k) \<and> \<not> dt_less d' yr \<and>
        (\<forall>j. j * length items < length new \<longrightarrow>
           dt_less (scheduled_at (new ! (j * length items))) yr)"
    proof (cases "dt_less d yr")
      case False
      let ?n = "[]::Event list"
      from False body y have "res = added @ ?n \<and> map rcmdn ?n = concat (replicate 0 items) \<and>
        linked ?s d (map scheduled_at ?n) d \<and>
        (dt_less d yr \<longrightarrow> 1 \<le> (0::nat)) \<and> \<not> dt_less d yr \<and>
        (\<forall>j. j * length items < length ?n \<longrightarrow>
           dt_less (scheduled_at (?n ! (j * length items))) yr)"
        by simp
      then show ?thesis by (intro exI)
    next
      case True
      show ?thesis
      proof (cases "add_desired_items uid rid ty items (d, added)")
        case (Inl e)
        with body True y show ?thesis by simp
      next
        case (Inr p)
        obtain d1 added1 where p: "p = (d1, added1)" by (cases p)
        from Inr p have a: "add_desired_items uid rid ty items (d, added) = Inr (d1, added1)"
          by simp
        from body True a have fr: "f uid rid ty items yr d1 added1 = Some y" by simp
        from add_desired_items_result [OF a] obtain new1 where
          n1: "added1 = added @ new1" and n2: "map rcmdn new1 = items" and
          n3: "linked ?s d (map scheduled_at new1) d1"
          by (elim exE conjE)
        have len1: "length new1 = length items" using n2 by (metis length_map)
        with ne have ne1: "new1 \<noteq> []" by auto
        have s1: "1 \<le> ?s" and s12: "?s \<le> 12"
          using step_months_bounds [of ty] by simp_all
        from linked_valid_sorted [OF n3 v s1 s12] have v1: "valid_datetime d1" by simp
        from linked_nth [OF n3] ne1 have first: "scheduled_at (new1 ! 0) = d"
          by (simp add: nth_map)
        from ih [OF fr, rule_format, OF y v1 ne] obtain new2 d' k where
          r1: "res = added1 @ new2" and
          r2: "map rcmdn new2 = concat (replicate k items)" and
          r3: "linked ?s d1 (map scheduled_at new2) d'" and
          r5: "\<not> dt_less d' yr" and
          r6: "\<forall>j. j * length items < length new2 \<longrightarrow>
                 dt_less (scheduled_at (new2 ! (j * length items))) yr"
          by (elim exE conjE)
        have c1: "res = added @ (new1 @ new2)" using r1 n1 by simp
        have c2: "map rcmdn (new1 @ new2) = concat (replicate (Suc k) items)"
          using n2 r2 by simp
        have c3: "linked ?s d (map scheduled_at (new1 @ new2)) d'"
          using linked_append [OF n3 r3] by simp
        have c4: "dt_less d yr \<longrightarrow> 1 \<le> Suc k" by simp
        have c6: "\<forall>j. j * length items < length (new1 @ new2) \<longrightarrow>
           dt_less (scheduled_at ((new1 @ new2) ! (j * length items))) yr"
        proof (intro allI impI)
          fix j assume j: "j * length items < length (new1 @ new2)"
          show "dt_less (scheduled_at ((new1 @ new2) ! (j * length items))) yr"
          proof (cases j)
            case 0
            with ne1 have "(new1 @ new2) ! (j * length items) = new1 ! 0"
              by (simp add: nth_append)
            with first True show ?thesis by simp
          next
            case (Suc i)
            then have idx: "j * length items = length new1 + i * length items"
              using len1 by simp
            with j have i: "i * length items < length new2" by simp
            from idx have "(new1 @ new2) ! (j * length items) = new2 ! (i * length items)"
              by (simp add: nth_append)
            with r6 i show ?thesis by simp
          qed
        qed
        from c1 c2 c3 c4 r5 c6 have "res = added @ (new1 @ new2) \<and>
          map rcmdn (new1 @ new2) = concat (replicate (Suc k) items) \<and>
          linked ?s d (map scheduled_at (new1 @ new2)) d' \<and>
          (dt_less d yr \<longrightarrow> 1 \<le> Suc k) \<and> \<not> dt_less d' yr \<and>
          (\<forall>j. j * length items < length (new1 @ new2) \<longrightarrow>
             dt_less (scheduled_at ((new1 @ new2) ! (j * length items))) yr)"
          by (intro conjI)
        then show ?thesis by (intro exI)
      qed
    qed
  qed
qed

text \<open>On a non-empty list the loop always returns, with events or with an error.\<close>

lemma schedule_events_terminates:
  assumes vy: "valid_datetime yr" and ne: "items \<noteq> []"
  shows "valid_datetime d \<Longrightarrow> \<exists>y. schedule_events uid rid ty items yr d added = Some y"
proof (induction "month_index yr + 1 - month_index d" arbitrary: d added rule: less_induct)
  case less
  let ?s = "step_months ty"
  have s1: "1 \<le> ?s" and s12: "?s \<le> 12" using step_months_bounds [of ty] by simp_all
  show ?case
  proof (cases "dt_less d yr")
    case False
    then have "schedule_events uid rid ty items yr d added = Some (Inr added)"
      by (subst schedule_events.simps) simp
    then show ?thesis by (rule exI)
  next
    case True
    from dt_less_month_index_le [OF less.prems vy True]
    have le: "month_index d \<le> month_index yr" .
    show ?thesis
    proof (cases "add_desired_items uid rid ty items (d, added)")
      case (Inl e)
      with True have "schedule_events uid rid ty items yr d added = Some (Inl e)"
        by (subst schedule_events.simps) simp
      then show ?thesis by (rule exI)
    next
      case (Inr p)
      obtain d1 added1 where p: "p = (d1, added1)" by (cases p)
      from Inr p have a: "add_desired_items uid rid ty items (d, added) = Inr (d1, added1)"
        by simp
      from add_desired_items_result [OF a] obtain new1 where
        n1: "added1 = added @ new1" and n2: "map rcmdn new1 = items" and
        n3: "linked ?s d (map scheduled_at new1) d1"
        by (elim exE conjE)
      have len1: "length new1 = length items" using n2 by (metis length_map)
      from linked_valid_sorted [OF n3 less.prems s1 s12] len1 have v1: "valid_datetime d1"
        and m1: "month_index d1 = month_index d + ?s * length items" by simp_all
      have "0 < length items" using ne by simp
      with s1 have pos: "0 < ?s * length items" by simp
      have dec: "month_index yr + 1 - month_index d1 < month_index yr + 1 - month_index d"
        using pos m1 le by linarith
      from less.hyps [OF dec v1, of added1] obtain y where
        "schedule_events uid rid ty items yr d1 added1 = Some y" ..
      with True a have "schedule_events uid rid ty items yr d added = Some y"
        by (subst schedule_events.simps) simp
      then show ?thesis by (rule exI)
    qed
  qed
qed

lemma method_specification_success_result:
  assumes v: "valid_datetime created" and ne: "desired_list \<noteq> []"
    and r: "method_specification_success uid rid created ty desired_list = Some (Inr events)"
  shows "\<exists>start yr d' k. replace_months 1 created = Inr start \<and> valid_datetime start \<and>
     replace_years 1 start = Inr yr \<and> valid_datetime yr \<and>
     month_index yr = month_index start + 12 \<and>
     1 \<le> k \<and> map rcmdn events = concat (replicate k desired_list) \<and>
     linked (step_months ty) start (map scheduled_at events) d' \<and>
     \<not> dt_less d' yr \<and>
     (\<forall>j. j * length desired_list < length events \<longrightarrow>
        dt_less (scheduled_at (events ! (j * length desired_list))) yr)"
proof (cases "replace_months 1 created")
  case (Inl e)
  with r show ?thesis by (simp add: method_specification_success_def)
next
  case (Inr start)
  from replace_months_props [OF v _ _ Inr] have vs: "valid_datetime start" by simp
  show ?thesis
  proof (cases "replace_years 1 start")
    case (Inl e)
    with r Inr show ?thesis by (simp add: method_specification_success_def)
  next
    case yr: (Inr yr)
    from replace_years_props [OF vs yr] have vy: "valid_datetime yr" and
      my: "month_index yr = month_index start + 12" by simp_all
    have less: "dt_less start yr"
      using month_index_less_dt_less [OF vs vy] my by simp
    from r Inr yr have "schedule_events uid rid ty desired_list yr start [] = Some (Inr events)"
      by (simp add: method_specification_success_def)
    from schedule_events_result_aux [OF this, rule_format, OF refl vs ne]
    obtain new d' k where
      t1: "events = [] @ new" and
      t2: "map rcmdn new = concat (replicate k desired_list)" and
      t3: "linked (step_months ty) start (map scheduled_at new) d'" and
      t4: "dt_less start yr \<longrightarrow> 1 \<le> k" and
      t5: "\<not> dt_less d' yr" and
      t6: "\<forall>j. j * length desired_list < length new \<longrightarrow>
             dt_less (scheduled_at (new ! (j * length desired_list))) yr"
      by (elim exE conjE)
    from t1 have e: "new = events" by simp
    from t4 less have k: "1 \<le> k" by simp
    from Inr vs yr vy my k t2 t3 t5 t6 e have
      "replace_months 1 created = Inr start \<and> valid_datetime start \<and>
       replace_years 1 start = Inr yr \<and> valid_datetime yr \<and>
       month_index yr = month_index start + 12 \<and>
       1 \<le> k \<and> map rcmdn events = concat (replicate k desired_list) \<and>
       linked (step_months ty) start (map scheduled_at events) d' \<and>
       \<not> dt_less d' yr \<and>
       (\<forall>j. j * length desired_list < length events \<longrightarrow>
          dt_less (scheduled_at (events ! (j * length desired_list))) yr)"
      by simp
    then show ?thesis by (intro exI)
  qed
qed

lemma method_specification_success_terminates:
  assumes v: "valid_datetime created" and ne: "desired_list \<noteq> []"
  shows "\<exists>y. method_specification_success uid rid created ty desired_list = Some y"
proof (cases "replace_months 1 created")
  case (Inl e)
  then show ?thesis by (simp add: method_specification_success_def)
next
  case (Inr start)
  from replace_months_props [OF v _ _ Inr] have vs: "valid_datetime start" by simp
  show ?thesis
  proof (cases "replace_years 1 start")
    case (Inl e)
    with Inr show ?thesis by (simp add: method_specification_success_def)
  next
    case yr: (Inr yr)
    from replace_years_props [OF vs yr] have vy: "valid_datetime yr" by simp
    from schedule_events_terminates [OF vy ne vs, of uid rid ty "[]"] Inr yr show ?thesis
      by (simp add: method_specification_success_def)
  qed
qed




section \<open>Properties of the generated schedule\<close>

text \<open>
  C1, as amended. The claim has one event per method at every date, the date moving on
  only after the whole list. The loop body moves the date on after every single event.
  What holds, for every valid creation date, every category and every non-empty list:
  whenever the handler returns events, their methods are the list repeated a whole
  number of times, at least once, the first event is dated one month after the
  creation date, and every event is dated exactly one step (one month for \<open>fr\<close> and
  \<open>fam\<close>, four months otherwise) after the event before it; the handler always
  terminates; and it does return events when the year of the creation date plus the
  length of the list is at most 9997.
\<close>

theorem one_event_per_step:
  assumes "valid_datetime created" and "desired_list \<noteq> []"
  shows "(\<forall>events.
            method_specification_success uid rid created ty desired_list = Some (Inr events) \<longrightarrow>
            (\<exists>k. 1 \<le> k \<and> map rcmdn events = concat (replicate k desired_list)) \<and>
            replace_months 1 created = Inr (scheduled_at (events ! 0)) \<and>
            (\<forall>i. Suc i < length events \<longrightarrow>
               replace_months (step_months ty) (scheduled_at (events ! i))
                 = Inr (scheduled_at (events ! Suc i)))) \<and>
         (\<exists>y. method_specification_success uid rid created ty desired_list = Some y) \<and>
         (dt_year created + length desired_list \<le> 9997 \<longrightarrow>
            (\<exists>events. method_specification_success uid rid created ty desired_list
                 = Some (Inr events)))"
proof (intro conjI allI impI)
  fix events
  assume r: "method_specification_success uid rid created ty desired_list = Some (Inr events)"
  from method_specification_success_result [OF assms r] obtain start yr d' k where
    s: "replace_months 1 created = Inr start" and
    k: "1 \<le> k" and m: "map rcmdn events = concat (replicate k desired_list)" and
    l: "linked (step_months ty) start (map scheduled_at events) d'"
    by (elim exE conjE)
  from k m show "\<exists>k. 1 \<le> k \<and> map rcmdn events = concat (replicate k desired_list)"
    by (intro exI conjI)
  from nonempty_of_rounds [OF m k assms(2)] have ne: "events \<noteq> []" .
  from linked_nth [OF l] have
    h: "map scheduled_at events \<noteq> [] \<longrightarrow> map scheduled_at events ! 0 = start" and
    t: "\<forall>i. Suc i < length (map scheduled_at events) \<longrightarrow>
          replace_months (step_months ty) (map scheduled_at events ! i)
            = Inr (map scheduled_at events ! Suc i)"
    by simp_all
  from ne h have "scheduled_at (events ! 0) = start" by (simp add: nth_map)
  with s show "replace_months 1 created = Inr (scheduled_at (events ! 0))" by simp
  fix i assume i: "Suc i < length events"
  with t have "replace_months (step_months ty) (map scheduled_at events ! i)
            = Inr (map scheduled_at events ! Suc i)" by simp
  with i show "replace_months (step_months ty) (scheduled_at (events ! i))
          = Inr (scheduled_at (events ! Suc i))" by (simp add: nth_map)
next
  show "\<exists>y. method_specification_success uid rid created ty desired_list = Some y"
    by (rule method_specification_success_terminates [OF assms])
next
  assume rng: "dt_year created + length desired_list \<le> 9997"
  from method_specification_success_returns [OF assms rng, of uid rid ty]
  obtain events start yr d' k where
    r: "method_specification_success uid rid created ty desired_list = Some (Inr events)"
    by (elim exE conjE)
  then show "\<exists>events. method_specification_success uid rid created ty desired_list
                 = Some (Inr events)" by (rule exI)
qed

theorem one_event_per_step_witness:
  "valid_datetime \<lparr>dt_year = 2024, dt_month = 1, dt_day = 15, dt_time = 0\<rparr> \<and>
   [''call'', ''email''] \<noteq> [] \<and>
   dt_year \<lparr>dt_year = 2024, dt_month = 1, dt_day = 15, dt_time = 0\<rparr>
     + length [''call'', ''email''] \<le> 9997 \<and>
   (\<exists>events k.
     method_specification_success 1 2 \<lparr>dt_year = 2024, dt_month = 1, dt_day = 15, dt_time = 0\<rparr>
       ''fam'' [''call'', ''email''] = Some (Inr events) \<and>
     1 \<le> k \<and> map rcmdn events = concat (replicate k [''call'', ''email'']) \<and>
     replace_months 1 \<lparr>dt_year = 2024, dt_month = 1, dt_day = 15, dt_time = 0\<rparr>
       = Inr (scheduled_at (events ! 0)) \<and>
     (\<forall>i. Suc i < length events \<longrightarrow>
        replace_months (step_months ''fam'') (scheduled_at (events ! i))
          = Inr (scheduled_at (events ! Suc i))))"
proof -
  let ?c = "\<lparr>dt_year = 2024, dt_month = 1, dt_day = 15, dt_time = 0\<rparr>"
  let ?l = "[''call'', ''email'']"
  let ?r = "method_specification_success 1 2 ?c ''fam'' ?l"
  have v: "valid_datetime ?c"
    by (simp add: valid_datetime_def calendar_defs)
  have n: "?l \<noteq> []" by simp
  have g: "dt_year ?c + length ?l \<le> 9997" by simp
  note t = one_event_per_step [OF v n, of 1 2 "''fam''"]
  from t have t1: "\<forall>events. ?r = Some (Inr events) \<longrightarrow>
            (\<exists>k. 1 \<le> k \<and> map rcmdn events = concat (replicate k ?l)) \<and>
            replace_months 1 ?c = Inr (scheduled_at (events ! 0)) \<and>
            (\<forall>i. Suc i < length events \<longrightarrow>
               replace_months (step_months ''fam'') (scheduled_at (events ! i))
                 = Inr (scheduled_at (events ! Suc i)))"
    by (rule conjunct1)
  from t have t3: "dt_year ?c + length ?l \<le> 9997 \<longrightarrow> (\<exists>events. ?r = Some (Inr events))"
    by (rule conjunct2 [THEN conjunct2])
  from mp [OF t3 g] obtain events where r: "?r = Some (Inr events)" ..
  from t1 [rule_format, OF r] obtain k where
    k: "1 \<le> k" and m: "map rcmdn events = concat (replicate k ?l)" and
    s: "replace_months 1 ?c = Inr (scheduled_at (events ! 0))" and
    st: "\<forall>i. Suc i < length events \<longrightarrow>
               replace_months (step_months ''fam'') (scheduled_at (events ! i))
                 = Inr (scheduled_at (events ! Suc i))"
    by (elim exE conjE)
  from r k m s st have "\<exists>events k. ?r = Some (Inr events) \<and>
     1 \<le> k \<and> map rcmdn events = concat (replicate k ?l) \<and>
     replace_months 1 ?c = Inr (scheduled_at (events ! 0)) \<and>
     (\<forall>i. Suc i < length events \<longrightarrow>
        replace_months (step_months ''fam'') (scheduled_at (events ! i))
          = Inr (scheduled_at (events ! Suc i)))"
    by (intro exI conjI)
  with v n g show ?thesis by (intro conjI)
qed

theorem one_event_per_step_counterexample:
  "rcmdn (events_of (method_specification_success 1 2
       \<lparr>dt_year = 2024, dt_month = 1, dt_day = 15, dt_time = 0\<rparr>
       ''fam'' [''call'', ''email'']) ! 0) = ''call'' \<and>
   rcmdn (events_of (method_specification_success 1 2
       \<lparr>dt_year = 2024, dt_month = 1, dt_day = 15, dt_time = 0\<rparr>
       ''fam'' [''call'', ''email'']) ! 1) = ''email'' \<and>
   scheduled_at (events_of (method_specification_success 1 2
       \<lparr>dt_year = 2024, dt_month = 1, dt_day = 15, dt_time = 0\<rparr>
       ''fam'' [''call'', ''email'']) ! 1)
   \<noteq> scheduled_at (events_of (method_specification_success 1 2
       \<lparr>dt_year = 2024, dt_month = 1, dt_day = 15, dt_time = 0\<rparr>
       ''fam'' [''call'', ''email'']) ! 0)"
  by (simp add: method_specification_success_def calendar_defs schedule_events.simps
      events_of_def)

text \<open>
  C2 claims that every event is dated before the end bound, one year after the start
  date. The bound is tested once per pass over the list, not once per event: for a
  professional contact created on 2024-01-15 with the methods call and email, the
  second pass starts on 2024-10-15, before the bound 2025-02-15, and its second event
  is dated 2025-02-15, which is not before the bound.
\<close>

theorem event_at_the_end_bound:
  "method_specification_success uid rid
     \<lparr>dt_year = 2024, dt_month = 1, dt_day = 15, dt_time = t\<rparr> ''prf'' [''call'', ''email''] =
   Some (Inr [mk_event uid rid ''call'' 2024 2 15 t, mk_event uid rid ''email'' 2024 6 15 t,
              mk_event uid rid ''call'' 2024 10 15 t, mk_event uid rid ''email'' 2025 2 15 t]) \<and>
   replace_months 1 \<lparr>dt_year = 2024, dt_month = 1, dt_day = 15, dt_time = t\<rparr>
     = Inr \<lparr>dt_year = 2024, dt_month = 2, dt_day = 15, dt_time = t\<rparr> \<and>
   replace_years 1 \<lparr>dt_year = 2024, dt_month = 2, dt_day = 15, dt_time = t\<rparr>
     = Inr \<lparr>dt_year = 2025, dt_month = 2, dt_day = 15, dt_time = t\<rparr> \<and>
   add_relativedelta 1 1 \<lparr>dt_year = 2024, dt_month = 1, dt_day = 15, dt_time = t\<rparr>
     = Inr \<lparr>dt_year = 2025, dt_month = 2, dt_day = 15, dt_time = t\<rparr> \<and>
   \<not> dt_less (scheduled_at (mk_event uid rid ''email'' 2025 2 15 t))
       \<lparr>dt_year = 2025, dt_month = 2, dt_day = 15, dt_time = t\<rparr>"
  by (simp add: method_specification_success_def calendar_defs schedule_events.simps
      mk_event_def)

text \<open>
  C3 claims that an empty list gives an empty sequence of events. With an empty list
  the body of the \<open>while\<close> loop does nothing, the date never moves and the loop
  condition stays true: for every valid creation date (up to the year 9997, so that
  the start date and the bound exist) and every category the handler never returns.
\<close>

theorem empty_list_never_returns:
  assumes "valid_datetime created" and "dt_year created \<le> 9997"
  shows "method_specification_success uid rid created ty [] = None"
proof -
  have m: "dt_month created \<le> 12" using assms(1) by (simp add: valid_datetime_def)
  have r1: "month_index created + 1 \<le> 120000"
    using assms(2) m by (simp add: month_index_def)
  from replace_months_Inr [OF assms(1) _ _ r1] obtain start where
    s1: "replace_months 1 created = Inr start" and s2: "valid_datetime start" and
    s3: "month_index start = month_index created + 1"
    by (elim exE conjE | simp)+
  have r2: "month_index start + 12 \<le> 120000"
    using assms(2) m s3 by (simp add: month_index_def)
  from replace_years_Inr [OF s2 r2] obtain yr where y1: "replace_years 1 start = Inr yr" ..
  from replace_years_props [OF s2 y1] have y2: "valid_datetime yr" and
    y3: "month_index yr = month_index start + 12"
    by simp_all
  have less: "dt_less start yr"
    using month_index_less_dt_less [OF s2 y2] y3 by simp
  from s1 y1 schedule_events_empty [OF less] show ?thesis
    by (simp add: method_specification_success_def)
qed

theorem empty_list_never_returns_witness:
  "valid_datetime \<lparr>dt_year = 2024, dt_month = 1, dt_day = 15, dt_time = 0\<rparr> \<and>
   method_specification_success 1 2
     \<lparr>dt_year = 2024, dt_month = 1, dt_day = 15, dt_time = 0\<rparr> ''fr'' [] = None"
proof -
  have v: "valid_datetime \<lparr>dt_year = 2024, dt_month = 1, dt_day = 15, dt_time = 0\<rparr>"
    by (simp add: valid_datetime_def calendar_defs)
  from empty_list_never_returns [OF v, of 1 2 "''fr''"] v show ?thesis by simp
qed

text \<open>
  C4 claims that the loop terminates on every input, the empty list included. On the
  empty list it does not: here for a professional contact created on 2024-06-01.
  (On a non-empty list it does return, see \<open>method_specification_success_returns\<close>.)
\<close>

theorem loop_runs_forever_on_empty_list:
  "method_specification_success uid rid
     \<lparr>dt_year = 2024, dt_month = 6, dt_day = 1, dt_time = t\<rparr> ''prf'' [] = None"
  by (simp add: method_specification_success_def replace_months_def replace_years_def
      add_relativedelta_def MAXYEAR_def days_in_month_def isleap_def
      schedule_events_empty dt_less_def)

text \<open>
  C5, as amended. For a friend created on 2024-01-15 with the methods call and email
  the handler produces 12 events, not 24: one per month from 2024-02-15 to 2025-01-15,
  call and email taking turns.
\<close>

theorem friend_example:
  "method_specification_success uid rid
     \<lparr>dt_year = 2024, dt_month = 1, dt_day = 15, dt_time = t\<rparr>
     (contact_added_relatp_type ''friend'') [''call'', ''email''] =
   Some (Inr [mk_event uid rid ''call'' 2024 2 15 t, mk_event uid rid ''email'' 2024 3 15 t,
              mk_event uid rid ''call'' 2024 4 15 t, mk_event uid rid ''email'' 2024 5 15 t,
              mk_event uid rid ''call'' 2024 6 15 t, mk_event uid rid ''email'' 2024 7 15 t,
              mk_event uid rid ''call'' 2024 8 15 t, mk_event uid rid ''email'' 2024 9 15 t,
              mk_event uid rid ''call'' 2024 10 15 t, mk_event uid rid ''email'' 2024 11 15 t,
              mk_event uid rid ''call'' 2024 12 15 t, mk_event uid rid ''email'' 2025 1 15 t])"
  by (simp add: method_specification_success_def calendar_defs schedule_events.simps
      mk_event_def contact_added_relatp_type_def)

theorem friend_example_counterexample:
  "length (events_of (method_specification_success 1 2
     \<lparr>dt_year = 2024, dt_month = 1, dt_day = 15, dt_time = 0\<rparr>
     (contact_added_relatp_type ''friend'') [''call'', ''email'']))
   \<noteq> 24"
  by (simp add: method_specification_success_def calendar_defs schedule_events.simps
      events_of_def contact_added_relatp_type_def)

text \<open>
  C6. For a professional contact created on 2024-01-15 with the single method call the
  handler produces exactly three events, dated 2024-02-15, 2024-06-15 and 2024-10-15.
\<close>

theorem professional_example:
  "method_specification_success uid rid
     \<lparr>dt_year = 2024, dt_month = 1, dt_day = 15, dt_time = t\<rparr>
     (contact_added_relatp_type ''professional'') [''call''] =
   Some (Inr [mk_event uid rid ''call'' 2024 2 15 t,
              mk_event uid rid ''call'' 2024 6 15 t,
              mk_event uid rid ''call'' 2024 10 15 t])"
  by (simp add: method_specification_success_def calendar_defs schedule_events.simps
      mk_event_def contact_added_relatp_type_def)






text \<open>
  C9. Every category string other than \<open>fr\<close> and \<open>fam\<close> is handled exactly as
  \<open>prf\<close>: the handler gives the same result; on a valid creation date and a non-empty
  list (the dates staying within the years of the calendar) it raises nothing and
  consecutive events are four calendar months apart. \<open>contact_added\<close> stores \<open>prf\<close>
  for every relationship other than \<open>friend\<close> and \<open>family\<close>.
\<close>

theorem other_categories_as_professional:
  assumes "ty \<noteq> ''fr''" and "ty \<noteq> ''fam''"
  shows "method_specification_success uid rid created ty desired_list =
           method_specification_success uid rid created ''prf'' desired_list \<and>
         (valid_datetime created \<and> desired_list \<noteq> [] \<and>
          dt_year created + length desired_list \<le> 9997 \<longrightarrow>
            \<not> raised (method_specification_success uid rid created ty desired_list) \<and>
            (\<forall>i. Suc i < length (events_of
                     (method_specification_success uid rid created ty desired_list)) \<longrightarrow>
               replace_months 4 (scheduled_at (events_of
                     (method_specification_success uid rid created ty desired_list) ! i))
               = Inr (scheduled_at (events_of
                     (method_specification_success uid rid created ty desired_list) ! Suc i)))) \<and>
         (relatp \<noteq> ''friend'' \<and> relatp \<noteq> ''family'' \<longrightarrow>
            contact_added_relatp_type relatp = ''prf'')"
proof (intro conjI impI)
  from assms have c: "(ty = ''fr'' \<or> ty = ''fam'') = (''prf'' = ''fr'' \<or> ''prf'' = ''fam'')"
    by simp
  show "method_specification_success uid rid created ty desired_list =
           method_specification_success uid rid created ''prf'' desired_list"
    by (rule method_specification_success_category [OF c])
next
  assume h: "valid_datetime created \<and> desired_list \<noteq> [] \<and>
          dt_year created + length desired_list \<le> 9997"
  then have h1: "valid_datetime created" and h2: "desired_list \<noteq> []"
    and h3: "dt_year created + length desired_list \<le> 9997" by simp_all
  from method_specification_success_returns [OF h1 h2 h3, of uid rid ty]
  obtain events start yr d' k where
    r: "method_specification_success uid rid created ty desired_list = Some (Inr events)" and
    l: "linked (step_months ty) start (map scheduled_at events) d'"
    by (elim exE conjE)
  from r show "\<not> raised (method_specification_success uid rid created ty desired_list)"
    by (simp add: raised_def)
  have s: "step_months ty = 4" using assms by (simp add: step_months_def)
  from linked_nth [OF l] have
    t: "\<forall>i. Suc i < length (map scheduled_at events) \<longrightarrow>
          replace_months (step_months ty) (map scheduled_at events ! i)
            = Inr (map scheduled_at events ! Suc i)"
    by simp
  show "\<forall>i. Suc i < length (events_of
                     (method_specification_success uid rid created ty desired_list)) \<longrightarrow>
               replace_months 4 (scheduled_at (events_of
                     (method_specification_success uid rid created ty desired_list) ! i))
               = Inr (scheduled_at (events_of
                     (method_specification_success uid rid created ty desired_list) ! Suc i))"
  proof (intro allI impI)
    fix i
    assume "Suc i < length (events_of
                     (method_specification_success uid rid created ty desired_list))"
    with r have i: "Suc i < length events" by (simp add: events_of_def)
    with t have "replace_months (step_months ty) (map scheduled_at events ! i)
            = Inr (map scheduled_at events ! Suc i)" by simp
    with i s r show "replace_months 4 (scheduled_at (events_of
                     (method_specification_success uid rid created ty desired_list) ! i))
               = Inr (scheduled_at (events_of
                     (method_specification_success uid rid created ty desired_list) ! Suc i))"
      by (simp add: events_of_def nth_map)
  qed
next
  assume "relatp \<noteq> ''friend'' \<and> relatp \<noteq> ''family''"
  then show "contact_added_relatp_type relatp = ''prf''"
    by (simp add: contact_added_relatp_type_def)
qed

theorem other_categories_as_professional_witness:
  "''colleague'' \<noteq> ''fr'' \<and> ''colleague'' \<noteq> ''fam'' \<and>
   valid_datetime \<lparr>dt_year = 2024, dt_month = 1, dt_day = 15, dt_time = 0\<rparr> \<and>
   ''professional'' \<noteq> ''friend'' \<and> ''professional'' \<noteq> ''family'' \<and>
   method_specification_success 1 2
       \<lparr>dt_year = 2024, dt_month = 1, dt_day = 15, dt_time = 0\<rparr> ''colleague'' [''call''] =
     method_specification_success 1 2
       \<lparr>dt_year = 2024, dt_month = 1, dt_day = 15, dt_time = 0\<rparr> ''prf'' [''call''] \<and>
   \<not> raised (method_specification_success 1 2
       \<lparr>dt_year = 2024, dt_month = 1, dt_day = 15, dt_time = 0\<rparr> ''colleague'' [''call'']) \<and>
   Suc 0 < length (events_of (method_specification_success 1 2
       \<lparr>dt_year = 2024, dt_month = 1, dt_day = 15, dt_time = 0\<rparr> ''colleague'' [''call''])) \<and>
   replace_months 4 (scheduled_at (events_of (method_specification_success 1 2
       \<lparr>dt_year = 2024, dt_month = 1, dt_day = 15, dt_time = 0\<rparr> ''colleague'' [''call'']) ! 0))
     = Inr (scheduled_at (events_of (method_specification_success 1 2
       \<lparr>dt_year = 2024, dt_month = 1, dt_day = 15, dt_time = 0\<rparr> ''colleague'' [''call''])
         ! Suc 0)) \<and>
   contact_added_relatp_type ''professional'' = ''prf''"
proof -
  let ?c = "\<lparr>dt_year = 2024, dt_month = 1, dt_day = 15, dt_time = 0\<rparr>"
  let ?r = "method_specification_success 1 2 ?c ''colleague'' [''call'']"
  have c: "''colleague'' \<noteq> ''fr''" "''colleague'' \<noteq> ''fam''" by simp_all
  have p: "''professional'' \<noteq> ''friend'' \<and> ''professional'' \<noteq> ''family''" by simp
  have v: "valid_datetime ?c"
    by (simp add: valid_datetime_def calendar_defs)
  have h: "valid_datetime ?c \<and> [''call''] \<noteq> [] \<and> dt_year ?c + length [''call''] \<le> 9997"
    using v by simp
  note t = other_categories_as_professional [OF c, of 1 2 ?c "[''call'']" "''professional''"]
  from t have t1: "?r = method_specification_success 1 2 ?c ''prf'' [''call'']"
    by (rule conjunct1)
  from t have t2: "valid_datetime ?c \<and> [''call''] \<noteq> [] \<and>
      dt_year ?c + length [''call''] \<le> 9997 \<longrightarrow>
      \<not> raised ?r \<and>
      (\<forall>i. Suc i < length (events_of ?r) \<longrightarrow>
         replace_months 4 (scheduled_at (events_of ?r ! i))
           = Inr (scheduled_at (events_of ?r ! Suc i)))"
    by (rule conjunct2 [THEN conjunct1])
  from t have t3: "''professional'' \<noteq> ''friend'' \<and> ''professional'' \<noteq> ''family'' \<longrightarrow>
      contact_added_relatp_type ''professional'' = ''prf''"
    by (rule conjunct2 [THEN conjunct2])
  from mp [OF t2 h] have nr: "\<not> raised ?r" and
    st: "\<forall>i. Suc i < length (events_of ?r) \<longrightarrow>
         replace_months 4 (scheduled_at (events_of ?r ! i))
           = Inr (scheduled_at (events_of ?r ! Suc i))"
    by (rule conjunct1, rule conjunct2)
  have len: "Suc 0 < length (events_of ?r)"
    by (simp add: method_specification_success_def calendar_defs schedule_events.simps
        events_of_def)
  from st len have s0: "replace_months 4 (scheduled_at (events_of ?r ! 0))
           = Inr (scheduled_at (events_of ?r ! Suc 0))"
    by blast
  from p have p1: "''professional'' \<noteq> ''friend''" and p2: "''professional'' \<noteq> ''family''"
    by (rule conjunct1, rule conjunct2)
  from c v p1 p2 t1 nr len s0 mp [OF t3 p] show ?thesis by (intro conjI)
qed

text \<open>
  C10. For a valid creation date, a non-empty list and any category, the scheduled
  dates increase strictly along the whole output, so that no two events of the
  relationship share a date. When the dates stay within the years of the calendar the
  handler does return, with at least one event.
\<close>

theorem scheduled_dates_strictly_increasing:
  assumes "valid_datetime created" and "desired_list \<noteq> []"
  shows "(\<forall>i j. i < j \<and>
            j < length (events_of (method_specification_success uid rid created ty desired_list)) \<longrightarrow>
          dt_less
            (scheduled_at (events_of
               (method_specification_success uid rid created ty desired_list) ! i))
            (scheduled_at (events_of
               (method_specification_success uid rid created ty desired_list) ! j))) \<and>
         distinct (map scheduled_at
            (events_of (method_specification_success uid rid created ty desired_list))) \<and>
         (dt_year created + length desired_list \<le> 9997 \<longrightarrow>
            (\<exists>events. method_specification_success uid rid created ty desired_list
                 = Some (Inr events) \<and> events \<noteq> []))"
proof (intro conjI allI impI)
  fix i j
  assume "i < j \<and>
     j < length (events_of (method_specification_success uid rid created ty desired_list))"
  then show "dt_less
            (scheduled_at (events_of
               (method_specification_success uid rid created ty desired_list) ! i))
            (scheduled_at (events_of
               (method_specification_success uid rid created ty desired_list) ! j))"
    using events_strictly_increasing [OF assms(1)] by simp
next
  let ?es = "events_of (method_specification_success uid rid created ty desired_list)"
  show "distinct (map scheduled_at ?es)"
  proof (unfold distinct_conv_nth, intro allI impI)
    fix i j
    assume i: "i < length (map scheduled_at ?es)" and j: "j < length (map scheduled_at ?es)"
      and neq: "i \<noteq> j"
    from i j have i': "i < length ?es" and j': "j < length ?es" by simp_all
    show "map scheduled_at ?es ! i \<noteq> map scheduled_at ?es ! j"
    proof
      assume "map scheduled_at ?es ! i = map scheduled_at ?es ! j"
      with i' j' have e: "scheduled_at (?es ! i) = scheduled_at (?es ! j)" by (simp add: nth_map)
      from neq consider "i < j" | "j < i" by linarith
      then show False
      proof cases
        case 1
        from events_strictly_increasing [OF assms(1) 1 j'] e show False
          by (simp add: dt_less_irrefl)
      next
        case 2
        from events_strictly_increasing [OF assms(1) 2 i'] e show False
          by (simp add: dt_less_irrefl)
      qed
    qed
  qed
next
  assume rng: "dt_year created + length desired_list \<le> 9997"
  from method_specification_success_returns [OF assms rng, of uid rid ty]
  obtain events start yr d' k where
    r: "method_specification_success uid rid created ty desired_list = Some (Inr events)" and
    k: "1 \<le> k" and m: "map rcmdn events = concat (replicate k desired_list)"
    by (elim exE conjE)
  from nonempty_of_rounds [OF m k assms(2)] have ne: "events \<noteq> []" .
  from r ne show "\<exists>events. method_specification_success uid rid created ty desired_list
                 = Some (Inr events) \<and> events \<noteq> []"
    by (intro exI conjI)
qed

theorem scheduled_dates_strictly_increasing_witness:
  "valid_datetime \<lparr>dt_year = 2024, dt_month = 3, dt_day = 31, dt_time = 0\<rparr> \<and>
   [''call'', ''email'', ''lunch''] \<noteq> [] \<and>
   dt_less
     (scheduled_at (events_of (method_specification_success 1 2
        \<lparr>dt_year = 2024, dt_month = 3, dt_day = 31, dt_time = 0\<rparr>
        ''prf'' [''call'', ''email'', ''lunch'']) ! 0))
     (scheduled_at (events_of (method_specification_success 1 2
        \<lparr>dt_year = 2024, dt_month = 3, dt_day = 31, dt_time = 0\<rparr>
        ''prf'' [''call'', ''email'', ''lunch'']) ! 1)) \<and>
   distinct (map scheduled_at (events_of (method_specification_success 1 2
        \<lparr>dt_year = 2024, dt_month = 3, dt_day = 31, dt_time = 0\<rparr>
        ''prf'' [''call'', ''email'', ''lunch'']))) \<and>
   (\<exists>events. method_specification_success 1 2
        \<lparr>dt_year = 2024, dt_month = 3, dt_day = 31, dt_time = 0\<rparr>
        ''prf'' [''call'', ''email'', ''lunch''] = Some (Inr events) \<and> events \<noteq> [])"
proof -
  let ?c = "\<lparr>dt_year = 2024, dt_month = 3, dt_day = 31, dt_time = 0\<rparr>"
  let ?r = "method_specification_success 1 2 ?c ''prf'' [''call'', ''email'', ''lunch'']"
  have v: "valid_datetime ?c"
    by (simp add: valid_datetime_def calendar_defs)
  have n: "[''call'', ''email'', ''lunch''] \<noteq> []" by simp
  have g: "dt_year ?c + length [''call'', ''email'', ''lunch''] \<le> 9997" by simp
  note t = scheduled_dates_strictly_increasing [OF v n, of 1 2 "''prf''"]
  from t have t1: "\<forall>i j. i < j \<and> j < length (events_of ?r) \<longrightarrow>
      dt_less (scheduled_at (events_of ?r ! i)) (scheduled_at (events_of ?r ! j))"
    by (rule conjunct1)
  from t have t2: "distinct (map scheduled_at (events_of ?r))"
    by (rule conjunct2 [THEN conjunct1])
  from t have t3: "dt_year ?c + length [''call'', ''email'', ''lunch''] \<le> 9997 \<longrightarrow>
      (\<exists>events. ?r = Some (Inr events) \<and> events \<noteq> [])"
    by (rule conjunct2 [THEN conjunct2])
  have len: "(0::nat) < 1 \<and> 1 < length (events_of ?r)"
    by (simp add: method_specification_success_def calendar_defs schedule_events.simps
        events_of_def)
  from t1 len have t1': "dt_less (scheduled_at (events_of ?r ! 0)) (scheduled_at (events_of ?r ! 1))"
    by blast
  from v n t1' t2 mp [OF t3 g] show ?thesis by (intro conjI)
qed

end
